theory Spec2Isabelle
  imports Main "HOL-Library.Sublist"
begin

section \<open>Python strings\<close>

text \<open>
  A Python \<open>str\<close> is modelled as a \<^typ>\<open>string\<close>: a list of characters, each one standing
  for the code point of the same number (0 to 255). Exceptions are values of \<open>error\<close>;
  a function that can raise returns \<open>error + 'a\<close>, with \<open>Inl\<close> for the exception.
\<close>

datatype error = KeyError | ValueError | IndexError | TypeError | CalledProcessError | EOFError

text \<open>\<open>str.isspace\<close> on one character: the code points below 256 that Python treats as
  whitespace.\<close>

definition isspace :: "char \<Rightarrow> bool" where
  "isspace c = (c \<in> set [CHR 0x09, CHR 0x0A, CHR 0x0B, CHR 0x0C, CHR 0x0D,
                          CHR 0x1C, CHR 0x1D, CHR 0x1E, CHR 0x1F, CHR 0x20,
                          CHR 0x85, CHR 0xA0])"

definition lstrip :: "string \<Rightarrow> string" where
  "lstrip s = dropWhile isspace s"

definition rstrip :: "string \<Rightarrow> string" where
  "rstrip s = rev (dropWhile isspace (rev s))"

definition strip :: "string \<Rightarrow> string" where
  "strip s = rstrip (lstrip s)"

text \<open>\<open>str.lower\<close>: the letters \<open>A\<close> to \<open>Z\<close> and the upper-case letters of the
  Latin-1 block (0xC0 to 0xDE, without the multiplication sign 0xD7) move up by 32.\<close>

definition lower_char :: "char \<Rightarrow> char" where
  "lower_char c =
     (let n = (of_char c :: nat)
      in if (65 \<le> n \<and> n \<le> 90) \<or> (192 \<le> n \<and> n \<le> 222 \<and> n \<noteq> 215)
         then char_of (n + 32) else c)"

definition lower :: "string \<Rightarrow> string" where
  "lower s = map lower_char s"

text \<open>\<open>s.split(sep)\<close> for a separator given explicitly: the pieces between the
  non-overlapping occurrences of \<open>sep\<close>, found from the left. An empty separator raises
  \<open>ValueError\<close>.\<close>

function split_aux :: "string \<Rightarrow> string \<Rightarrow> string \<Rightarrow> string list" where
  "split_aux sep acc [] = [rev acc]"
| "split_aux sep acc (c # cs) =
     (if sep \<noteq> [] \<and> prefix sep (c # cs)
      then rev acc # split_aux sep [] (drop (length sep) (c # cs))
      else split_aux sep (c # acc) cs)"
  by pat_completeness auto
termination
  by (relation "measure (\<lambda>(sep, acc, s). length s)") auto

definition split :: "string \<Rightarrow> string \<Rightarrow> error + string list" where
  "split s sep = (if sep = [] then Inl ValueError else Inr (split_aux sep [] s))"

text \<open>\<open>s.count(sub)\<close>: the number of non-overlapping occurrences of \<open>sub\<close>, found from
  the left; the empty string occurs between any two characters and at both ends.\<close>

function count :: "string \<Rightarrow> string \<Rightarrow> nat" where
  "count [] sub = (if sub = [] then 1 else 0)"
| "count (c # cs) sub =
     (if sub = [] then Suc (count cs sub)
      else if prefix sub (c # cs) then Suc (count (drop (length sub) (c # cs)) sub)
      else count cs sub)"
  by pat_completeness auto
termination
  by (relation "measure (\<lambda>(s, sub). length s)") auto

text \<open>\<open>sep.join(xs)\<close>.\<close>

fun join :: "string \<Rightarrow> string list \<Rightarrow> string" where
  "join sep [] = []"
| "join sep [x] = x"
| "join sep (x # y # ys) = x @ sep @ join sep (y # ys)"

text \<open>\<open>xs[i]\<close>: a negative index counts from the end, an index out of range raises
  \<open>IndexError\<close>.\<close>

definition getitem_list :: "'a list \<Rightarrow> int \<Rightarrow> error + 'a" where
  "getitem_list xs i =
     (let j = (if i < 0 then i + int (length xs) else i)
      in if j < 0 \<or> int (length xs) \<le> j then Inl IndexError else Inr (xs ! nat j))"

text \<open>\<open>xs[i] = v\<close>, with the same indices.\<close>

definition setitem_list :: "'a list \<Rightarrow> int \<Rightarrow> 'a \<Rightarrow> error + 'a list" where
  "setitem_list xs i v =
     (let j = (if i < 0 then i + int (length xs) else i)
      in if j < 0 \<or> int (length xs) \<le> j then Inl IndexError else Inr (xs[nat j := v]))"

text \<open>\<open>str(n)\<close> for an integer: its decimal digits, after a minus sign when it is
  negative.\<close>

definition digit_char :: "nat \<Rightarrow> char" where
  "digit_char d = char_of (48 + d)"

function str_nat :: "nat \<Rightarrow> string" where
  "str_nat n = (if n < 10 then [digit_char n] else str_nat (n div 10) @ [digit_char (n mod 10)])"
  by pat_completeness auto
termination
  by (relation "measure (\<lambda>n. n)") auto

definition str_int :: "int \<Rightarrow> string" where
  "str_int i = (if i < 0 then CHR ''-'' # str_nat (nat (- i)) else str_nat (nat i))"

text \<open>\<open>int(s)\<close> for a string: whitespace around the literal is dropped, one sign may
  come first, and the digits may be grouped by single underscores. Anything else raises
  \<open>ValueError\<close>. The whitespace of \<open>int\<close> is not that of \<open>str.strip\<close>: the parser
  skips the ASCII whitespace characters (tab to carriage return, and space) only, after
  the conversion has turned each whitespace character above 127 (0x85 and 0xA0, below
  256) into a space; the separators 0x1C to 0x1F are left in place and make the literal
  invalid. (The interpreter's configurable limit on the length of a decimal literal is
  not modelled.)\<close>

definition int_space :: "char \<Rightarrow> bool" where
  "int_space c = (c \<in> set [CHR 0x09, CHR 0x0A, CHR 0x0B, CHR 0x0C, CHR 0x0D, CHR 0x20,
                            CHR 0x85, CHR 0xA0])"

definition isdigit :: "char \<Rightarrow> bool" where
  "isdigit c = (48 \<le> (of_char c :: nat) \<and> (of_char c :: nat) \<le> 57)"

definition digit_value :: "char \<Rightarrow> nat" where
  "digit_value c = of_char c - 48"

definition digits_value :: "string \<Rightarrow> nat" where
  "digits_value ds = foldl (\<lambda>a c. 10 * a + digit_value c) 0 ds"

definition valid_digits :: "string \<Rightarrow> bool" where
  "valid_digits ds =
     (ds \<noteq> [] \<and> isdigit (hd ds) \<and> isdigit (last ds)
      \<and> list_all (\<lambda>c. isdigit c \<or> c = CHR ''_'') ds \<and> \<not> sublist ''__'' ds)"

definition int_of_str :: "string \<Rightarrow> error + int" where
  "int_of_str s =
     (let t = rev (dropWhile int_space (rev (dropWhile int_space s)));
          neg = (t \<noteq> [] \<and> hd t = CHR ''-'');
          ds = (if t \<noteq> [] \<and> (hd t = CHR ''-'' \<or> hd t = CHR ''+'') then tl t else t)
      in if valid_digits ds
         then Inr ((if neg then - 1 else 1) * int (digits_value (filter (\<lambda>c. c \<noteq> CHR ''_'') ds)))
         else Inl ValueError)"

text \<open>\<open>s.splitlines()\<close>: the lines of \<open>s\<close> without their line breaks. A line break is
  a line feed, a carriage return (with the line feed after it, if there is one), or one of
  the other line boundaries below 256; the last line needs none.\<close>

definition is_linebreak :: "char \<Rightarrow> bool" where
  "is_linebreak c = (c \<in> set [CHR 0x0A, CHR 0x0B, CHR 0x0C, CHR 0x0D,
                               CHR 0x1C, CHR 0x1D, CHR 0x1E, CHR 0x85])"

fun splitlines_aux :: "string \<Rightarrow> string \<Rightarrow> string list" where
  "splitlines_aux acc [] = (if acc = [] then [] else [rev acc])"
| "splitlines_aux acc [c] = (if is_linebreak c then [rev acc] else [rev (c # acc)])"
| "splitlines_aux acc (c # d # ds) =
     (if c = CHR 0x0D \<and> d = CHR 0x0A then rev acc # splitlines_aux [] ds
      else if is_linebreak c then rev acc # splitlines_aux [] (d # ds)
      else splitlines_aux (c # acc) (d # ds))"

definition splitlines :: "string \<Rightarrow> string list" where
  "splitlines s = splitlines_aux [] s"

section \<open>Confirmation prompts\<close>

text \<open>
  \<^verbatim>\<open>
  def affirmative(response: str) -> bool:
      return response.lower() == "y" or not response.strip()
  \<close>
\<close>

definition affirmative :: "string \<Rightarrow> bool" where
  "affirmative response = (lower response = ''y'' \<or> strip response = [])"

section \<open>Version strings\<close>

text \<open>
  \<^verbatim>\<open>
  def is_point_release(version):
      return version.count(".") > 1
  \<close>
\<close>

definition is_point_release :: "string \<Rightarrow> bool" where
  "is_point_release version = (count version ''.'' > 1)"

text \<open>
  The year of the clock is a parameter, \<open>now_year\<close>
  (\<^verbatim>\<open>datetime.datetime.now().year\<close>); the two-digit year is
  \<^verbatim>\<open>int(str(datetime.datetime.now().year)[2:])\<close>.
\<close>

definition current_year :: "int \<Rightarrow> error + int" where
  "current_year now_year = int_of_str (drop 2 (str_int now_year))"

text \<open>
  \<^verbatim>\<open>
  def get_release_version(old_version: str) -> str:
      old_version_parts = old_version.split(".")
      old_year = int(old_version_parts[0])
      current_year = int(str(datetime.datetime.now().year)[2:])
      if old_year >= current_year:
          old_version_parts[-1] = str(int(old_version_parts[-1]) + 1)
          likely_release_version = ".".join(old_version_parts)
      else:
          likely_release_version = f"{current_year}.1"
      response = input(f"Release version ({likely_release_version}): ")
      return response.strip() if response.strip() else likely_release_version
  \<close>
  \<open>likely_release_version\<close> is the default the prompt shows; \<open>response\<close> is what
  the operator types.
\<close>

definition likely_release_version :: "int \<Rightarrow> string \<Rightarrow> error + string" where
  "likely_release_version now_year old_version =
     (case split old_version ''.'' of Inl e \<Rightarrow> Inl e | Inr old_version_parts \<Rightarrow>
      case getitem_list old_version_parts 0 of Inl e \<Rightarrow> Inl e | Inr p0 \<Rightarrow>
      case int_of_str p0 of Inl e \<Rightarrow> Inl e | Inr old_year \<Rightarrow>
      case current_year now_year of Inl e \<Rightarrow> Inl e | Inr cy \<Rightarrow>
      if old_year \<ge> cy then
        (case getitem_list old_version_parts (- 1) of Inl e \<Rightarrow> Inl e | Inr pl \<Rightarrow>
         case int_of_str pl of Inl e \<Rightarrow> Inl e | Inr l \<Rightarrow>
         case setitem_list old_version_parts (- 1) (str_int (l + 1)) of Inl e \<Rightarrow> Inl e
         | Inr parts \<Rightarrow> Inr (join ''.'' parts))
      else Inr (str_int cy @ ''.1''))"

definition get_release_version :: "int \<Rightarrow> string \<Rightarrow> string \<Rightarrow> error + string" where
  "get_release_version now_year old_version response =
     (case likely_release_version now_year old_version of Inl e \<Rightarrow> Inl e
      | Inr likely \<Rightarrow> Inr (if strip response \<noteq> [] then strip response else likely))"

text \<open>
  \<^verbatim>\<open>
  def get_next_version(current_version: str) -> str:
      current_version_parts = current_version.split(".")
      year = int(current_version_parts[0])
      minor = int(current_version_parts[1])
      if minor > 3:
          current_year = int(str(datetime.datetime.now().year)[2:])
          likely_next_version = f"{current_year + 1}.1"
      else:
          likely_next_version = f"{year}.{minor + 1}"
      response = input(f"Next version ({likely_next_version}): ")
      return response.strip() if response.strip() else likely_next_version
  \<close>
\<close>

definition likely_next_version :: "int \<Rightarrow> string \<Rightarrow> error + string" where
  "likely_next_version now_year current_version =
     (case split current_version ''.'' of Inl e \<Rightarrow> Inl e | Inr current_version_parts \<Rightarrow>
      case getitem_list current_version_parts 0 of Inl e \<Rightarrow> Inl e | Inr p0 \<Rightarrow>
      case int_of_str p0 of Inl e \<Rightarrow> Inl e | Inr year \<Rightarrow>
      case getitem_list current_version_parts 1 of Inl e \<Rightarrow> Inl e | Inr p1 \<Rightarrow>
      case int_of_str p1 of Inl e \<Rightarrow> Inl e | Inr minor \<Rightarrow>
      if minor > 3 then
        (case current_year now_year of Inl e \<Rightarrow> Inl e
         | Inr cy \<Rightarrow> Inr (str_int (cy + 1) @ ''.1''))
      else Inr (str_int year @ ''.'' @ str_int (minor + 1)))"

definition get_next_version :: "int \<Rightarrow> string \<Rightarrow> string \<Rightarrow> error + string" where
  "get_next_version now_year current_version response =
     (case likely_next_version now_year current_version of Inl e \<Rightarrow> Inl e
      | Inr likely \<Rightarrow> Inr (if strip response \<noteq> [] then strip response else likely))"

section \<open>The stage cache\<close>

text \<open>
  The values the tool keeps in the cache are strings, booleans, integers and \<open>None\<close>.
  The cache is a dict from version to a dict from field name to value; \<open>json.dump\<close>
  followed by \<open>json.load\<close> gives such a dict back unchanged, so the content of the
  file at \<open>CACHE_PATH\<close> is modelled as the dict itself, and as \<open>None\<close> while the file
  does not exist.
\<close>

datatype pyval = PyNone | PyBool bool | PyInt int | PyStr string

type_synonym fields = "string \<rightharpoonup> pyval"

type_synonym store = "string \<rightharpoonup> fields"

record CachedDict =
  version :: string
  cache :: store

text \<open>
  \<^verbatim>\<open>
  def __init__(self, version):
      self.version = str(version)
      if CACHE_PATH.exists():
          with open(CACHE_PATH, "r") as f:
              self.cache = json.load(f)
      else:
          self.cache = {}
      if self.version not in self.cache:
          self.cache[self.version] = {}
  \<close>
\<close>

definition CachedDict_init :: "string \<Rightarrow> store option \<Rightarrow> CachedDict" where
  "CachedDict_init v file =
     (let c = (case file of Some content \<Rightarrow> content | None \<Rightarrow> Map.empty)
      in \<lparr>version = v,
          cache = (case c v of None \<Rightarrow> c(v \<mapsto> Map.empty) | Some _ \<Rightarrow> c)\<rparr>)"

text \<open>
  \<^verbatim>\<open>
  def _save_cache(self):
      with open(CACHE_PATH, "w") as f:
          json.dump(self.cache, f)
  \<close>
  The result is the new content of the file.
\<close>

definition save_cache :: "CachedDict \<Rightarrow> store option" where
  "save_cache self = Some (cache self)"

text \<open>
  \<^verbatim>\<open>
  def __setitem__(self, key, item):
      self.cache[self.version][key] = item
      self._save_cache()
  \<close>
  The subscript \<open>self.cache[self.version]\<close> raises \<open>KeyError\<close> when the version has
  no entry; the file is then left as it was.
\<close>

definition setitem :: "CachedDict \<Rightarrow> string \<Rightarrow> pyval \<Rightarrow> error + CachedDict \<times> store option" where
  "setitem self key item =
     (case cache self (version self) of
        None \<Rightarrow> Inl KeyError
      | Some entry \<Rightarrow>
          (let self' = self\<lparr>cache := (cache self)(version self \<mapsto> entry(key \<mapsto> item))\<rparr>
           in Inr (self', save_cache self')))"

text \<open>
  \<^verbatim>\<open>
  def __getitem__(self, key):
      try:
          return self.cache[self.version][key]
      except KeyError:
          None
  \<close>
  \<open>subscript\<close> is the expression under \<open>try\<close>; after a \<open>KeyError\<close> the method falls
  off its end and returns \<open>None\<close>.
\<close>

definition subscript :: "CachedDict \<Rightarrow> string \<Rightarrow> error + pyval" where
  "subscript self key =
     (case cache self (version self) of
        None \<Rightarrow> Inl KeyError
      | Some entry \<Rightarrow> (case entry key of None \<Rightarrow> Inl KeyError | Some v \<Rightarrow> Inr v))"

definition getitem :: "CachedDict \<Rightarrow> string \<Rightarrow> error + pyval" where
  "getitem self key =
     (case subscript self key of
        Inr v \<Rightarrow> Inr v
      | Inl e \<Rightarrow> (if e = KeyError then Inr PyNone else Inl e))"

text \<open>
  \<^verbatim>\<open>
  def purge(self):
      self.cache[self.version] = {}
      self._save_cache()
  \<close>
\<close>

definition purge :: "CachedDict \<Rightarrow> CachedDict \<times> store option" where
  "purge self =
     (let self' = self\<lparr>cache := (cache self)(version self \<mapsto> Map.empty)\<rparr>
      in (self', save_cache self'))"

text \<open>The in-memory store has an entry for the version of the cache object.\<close>

definition has_entry :: "CachedDict \<Rightarrow> bool" where
  "has_entry self = (cache self (version self) \<noteq> None)"

section \<open>The description of the release bug\<close>

text \<open>
  \<^verbatim>\<open>
  BUG_TEMPLATE = """\
  == Release Notes ==

  Cloud-init release {NEW_RELEASE} is now available

  The {NEW_RELEASE} release:
   * spanned about {RELEASE_TIME_SPAN}
   * had {NUM_CONTRIBUTORS} contributors from {NUM_DOMAINS} domains
   * fixed {NUM_BUGS} Launchpad issues

  Highlights:
    <TODO_SUMMARIZED_HIGHLIGHTS>

  == Changelog ==
  {CHANGELOG}
  """
  \<close>
  \<open>BUG_TEMPLATE_format\<close> is \<open>BUG_TEMPLATE.format(...)\<close> with the six keyword arguments
  in the order of \<open>create_release_bug\<close>.
\<close>

definition BUG_TEMPLATE_format ::
  "string \<Rightarrow> string \<Rightarrow> string \<Rightarrow> string \<Rightarrow> string \<Rightarrow> string \<Rightarrow> string" where
  "BUG_TEMPLATE_format NEW_RELEASE RELEASE_TIME_SPAN NUM_CONTRIBUTORS NUM_DOMAINS NUM_BUGS CHANGELOG =
     ''== Release Notes ==\<newline>'' @
     ''\<newline>'' @
     ''Cloud-init release '' @ NEW_RELEASE @ '' is now available\<newline>'' @
     ''\<newline>'' @
     ''The '' @ NEW_RELEASE @ '' release:\<newline>'' @
     '' * spanned about '' @ RELEASE_TIME_SPAN @ ''\<newline>'' @
     '' * had '' @ NUM_CONTRIBUTORS @ '' contributors from '' @ NUM_DOMAINS @ '' domains\<newline>'' @
     '' * fixed '' @ NUM_BUGS @ '' Launchpad issues\<newline>'' @
     ''\<newline>'' @
     ''Highlights:\<newline>'' @
     ''  <TODO_SUMMARIZED_HIGHLIGHTS>\<newline>'' @
     ''\<newline>'' @
     ''== Changelog ==\<newline>'' @
     CHANGELOG @ ''\<newline>''"

text \<open>The two section headers, and the text that the template puts between them.\<close>

definition release_notes_marker :: string where
  "release_notes_marker = ''== Release Notes ==''"

definition changelog_marker :: string where
  "changelog_marker = ''== Changelog ==''"

definition release_notes_section :: "string \<Rightarrow> string \<Rightarrow> string \<Rightarrow> string \<Rightarrow> string \<Rightarrow> string" where
  "release_notes_section NEW_RELEASE RELEASE_TIME_SPAN NUM_CONTRIBUTORS NUM_DOMAINS NUM_BUGS =
     ''\<newline>'' @
     ''\<newline>'' @
     ''Cloud-init release '' @ NEW_RELEASE @ '' is now available\<newline>'' @
     ''\<newline>'' @
     ''The '' @ NEW_RELEASE @ '' release:\<newline>'' @
     '' * spanned about '' @ RELEASE_TIME_SPAN @ ''\<newline>'' @
     '' * had '' @ NUM_CONTRIBUTORS @ '' contributors from '' @ NUM_DOMAINS @ '' domains\<newline>'' @
     '' * fixed '' @ NUM_BUGS @ '' Launchpad issues\<newline>'' @
     ''\<newline>'' @
     ''Highlights:\<newline>'' @
     ''  <TODO_SUMMARIZED_HIGHLIGHTS>\<newline>'' @
     ''\<newline>''"

text \<open>
  The sections are read back in \<open>upload_to_launchpad\<close>:
  \<^verbatim>\<open>
  release_notes, changelog = bug_description.split("== Release Notes ==")[1].split(
      "== Changelog =="
  )
  release_notes = release_notes.strip()
  changelog = "\n".join(changelog.splitlines()[1:]).rstrip()
  \<close>
  Unpacking into two names raises \<open>ValueError\<close> unless the second split gives exactly two
  pieces.
\<close>

definition release_notes_and_changelog :: "string \<Rightarrow> error + string \<times> string" where
  "release_notes_and_changelog bug_description =
     (case split bug_description ''== Release Notes =='' of Inl e \<Rightarrow> Inl e | Inr pieces \<Rightarrow>
      case getitem_list pieces 1 of Inl e \<Rightarrow> Inl e | Inr piece \<Rightarrow>
      case split piece ''== Changelog =='' of Inl e \<Rightarrow> Inl e
      | Inr [release_notes, changelog] \<Rightarrow>
          Inr (strip release_notes, rstrip (join ''\<newline>'' (drop 1 (splitlines changelog))))
      | Inr _ \<Rightarrow> Inl ValueError)"

section \<open>Properties of the string functions\<close>

lemma lower_char_y: "lower_char c = CHR ''y'' \<longleftrightarrow> c = CHR ''y'' \<or> c = CHR ''Y''"
proof
  assume a: "lower_char c = CHR ''y''"
  define n where "n = (of_char c :: nat)"
  show "c = CHR ''y'' \<or> c = CHR ''Y''"
  proof (cases "(65 \<le> n \<and> n \<le> 90) \<or> (192 \<le> n \<and> n \<le> 222 \<and> n \<noteq> 215)")
    case True
    then have "char_of (n + 32) = CHR ''y''"
      using a by (simp add: lower_char_def n_def Let_def)
    then have "(of_char (char_of (n + 32) :: char) :: nat) = 121" by simp
    then have "(n + 32) mod 256 = 121" by simp
    with True have "n = 89" by auto
    then have "(of_char c :: nat) = of_char CHR ''Y''" by (simp add: n_def)
    then have "c = CHR ''Y''" by (simp only: of_char_eq_iff)
    then show ?thesis by simp
  next
    case False
    then have "lower_char c = c" by (auto simp: lower_char_def n_def Let_def)
    with a show ?thesis by simp
  qed
next
  have 1: "lower_char CHR ''y'' = CHR ''y''" by code_simp
  have 2: "lower_char CHR ''Y'' = CHR ''y''" by code_simp
  assume "c = CHR ''y'' \<or> c = CHR ''Y''"
  then show "lower_char c = CHR ''y''" using 1 2 by auto
qed

lemma lower_y: "lower s = ''y'' \<longleftrightarrow> s = ''y'' \<or> s = ''Y''"
  unfolding lower_def by (auto simp: lower_char_y map_eq_Cons_conv)

lemma strip_empty_iff: "strip s = [] \<longleftrightarrow> (\<forall>c \<in> set s. isspace c)"
  unfolding strip_def rstrip_def lstrip_def
  by (metis Nil_is_rev_conv dropWhile_eq_Nil_conv dropWhile_idem set_rev)

lemma count_single: "count s [c] = length (filter (\<lambda>x. x = c) s)"
  by (induction s) auto

lemma split_aux_skip:
  "c \<notin> set a \<Longrightarrow> split_aux [c] acc (a @ r) = split_aux [c] (rev a @ acc) r"
  by (induction a arbitrary: acc) auto

lemma split_aux_join:
  "cs \<noteq> [] \<Longrightarrow> \<forall>x \<in> set cs. c \<notin> set x \<Longrightarrow>
   split_aux [c] acc (join [c] cs) = (rev acc @ hd cs) # tl cs"
proof (induction "[c]" cs arbitrary: acc rule: join.induct)
  case 1
  then show ?case by simp
next
  case (2 x)
  then show ?case using split_aux_skip [of c x acc "[]"] by simp
next
  case (3 x y ys)
  have "split_aux [c] acc (x @ [c] @ join [c] (y # ys)) = split_aux [c] (rev x @ acc) ([c] @ join [c] (y # ys))"
    using 3 split_aux_skip [of c x acc] by simp
  also have "\<dots> = (rev acc @ x) # split_aux [c] [] (join [c] (y # ys))" by simp
  also have "split_aux [c] [] (join [c] (y # ys)) = y # ys" using 3 by simp
  finally show ?case by simp
qed

lemma split_join: 
  "cs \<noteq> [] \<Longrightarrow> \<forall>x \<in> set cs. c \<notin> set x \<Longrightarrow> split (join [c] cs) [c] = Inr cs"
  by (simp add: split_def split_aux_join)

lemma isdigit_not_space: "isdigit c \<Longrightarrow> \<not> int_space c"
  by (auto simp: isdigit_def int_space_def)

lemma isdigit_not_special: "isdigit c \<Longrightarrow> c \<noteq> CHR ''-'' \<and> c \<noteq> CHR ''+'' \<and> c \<noteq> CHR ''_'' \<and> c \<noteq> CHR ''.''"
  by (auto simp: isdigit_def)

lemma dropWhile_hd: "xs \<noteq> [] \<Longrightarrow> \<not> P (hd xs) \<Longrightarrow> dropWhile P xs = xs"
  by (cases xs) auto

lemma strip_id:
  assumes "s \<noteq> []" "\<not> P (hd s)" "\<not> P (last s)"
  shows "rev (dropWhile P (rev (dropWhile P s))) = s"
proof -
  have 1: "dropWhile P s = s" using assms by (simp add: dropWhile_hd)
  have "rev s \<noteq> []" "hd (rev s) = last s" using assms by (simp_all add: hd_rev)
  then have "dropWhile P (rev s) = rev s" using assms dropWhile_hd [of "rev s" P] by simp
  with 1 show ?thesis by simp
qed

lemma sublist_set: "sublist xs ys \<Longrightarrow> set xs \<subseteq> set ys"
  by (auto simp: sublist_def)

lemma int_of_str_digits:
  assumes "ds \<noteq> []" "list_all isdigit ds"
  shows "int_of_str ds = Inr (int (digits_value ds))"
proof -
  have all: "\<forall>c \<in> set ds. isdigit c" using assms by (simp add: list_all_iff)
  have h: "isdigit (hd ds)" and l: "isdigit (last ds)" using assms all by auto
  have s: "rev (dropWhile int_space (rev (dropWhile int_space ds))) = ds"
    using assms h l by (simp add: strip_id isdigit_not_space)
  have nu: "CHR ''_'' \<notin> set ds" using all isdigit_not_special by blast
  then have "\<not> sublist ''__'' ds" using sublist_set by fastforce
  then have v: "valid_digits ds"
    using assms h l all by (auto simp: valid_digits_def list_all_iff)
  have f: "filter (\<lambda>c. c \<noteq> CHR ''_'') ds = ds" using nu by (auto simp: filter_id_conv)
  show ?thesis using s v f h assms isdigit_not_special [OF h]
    by (simp add: int_of_str_def Let_def)
qed

lemma getitem_list_0: "xs \<noteq> [] \<Longrightarrow> getitem_list xs 0 = Inr (hd xs)"
  by (cases xs) (auto simp: getitem_list_def)

lemma getitem_list_1: "getitem_list [x, y] 1 = Inr y"
  by (simp add: getitem_list_def)

lemma getitem_list_last: "xs \<noteq> [] \<Longrightarrow> getitem_list xs (- 1) = Inr (last xs)"
  by (auto simp: getitem_list_def Let_def last_conv_nth nat_diff_distrib' of_nat_diff)

lemma setitem_list_last: "xs \<noteq> [] \<Longrightarrow> setitem_list xs (- 1) v = Inr (butlast xs @ [v])"
proof -
  assume a: "xs \<noteq> []"
  then obtain ys y where xs: "xs = ys @ [y]" by (metis rev_exhaust)
  have "nat (int (length ys)) = length ys" by simp
  then show ?thesis unfolding xs by (simp add: setitem_list_def Let_def)
qed


lemma digits_no_dot: "list_all isdigit d \<Longrightarrow> CHR ''.'' \<notin> set d"
  using isdigit_not_special by (auto simp: list_all_iff)

lemma cy2024: "current_year 2024 = Inr 24" by code_simp

lemma has_entry_init: "has_entry (CachedDict_init v file)"
  by (auto simp: has_entry_def CachedDict_init_def Let_def split: option.splits)

lemma version_init: "version (CachedDict_init v file) = v"
  by (simp add: CachedDict_init_def Let_def)

lemma init_reload: "has_entry self \<Longrightarrow> CachedDict_init (version self) (save_cache self) = self"
  by (auto simp: has_entry_def CachedDict_init_def save_cache_def Let_def split: option.splits)

lemma setitem_ok:
  "has_entry self \<Longrightarrow> \<exists>self'. setitem self key item = Inr (self', save_cache self')
      \<and> has_entry self' \<and> version self' = version self \<and> getitem self' key = Inr item"
  by (auto simp: has_entry_def setitem_def getitem_def subscript_def Let_def split: option.splits)

lemma template_sections:
  "BUG_TEMPLATE_format a b c d e f =
     release_notes_marker @ release_notes_section a b c d e @ changelog_marker @ ''\<newline>'' @ f @ ''\<newline>''"
  by (simp add: BUG_TEMPLATE_format_def release_notes_marker_def release_notes_section_def
      changelog_marker_def)

lemma split_aux_at_sep:
  "sep \<noteq> [] \<Longrightarrow> split_aux sep acc (sep @ r) = rev acc # split_aux sep [] r"
  by (cases sep) auto

lemma prefix_stop:
  assumes "prefix xs (ys @ c # zs)" "c \<notin> set xs"
  shows "prefix xs ys"
proof -
  from assms(1) obtain ws where w: "ys @ c # zs = xs @ ws" by (auto simp: prefix_def)
  show ?thesis
  proof (cases "length xs \<le> length ys")
    case True
    then have "xs = take (length xs) ys"
      using w by (metis append_eq_conv_conj take_append diff_is_0_eq take_0 append_Nil2)
    then show ?thesis by (metis take_is_prefix)
  next
    case False
    then have "length ys < length xs" by simp
    then have "xs ! length ys = (ys @ c # zs) ! length ys"
      using w by (simp add: nth_append)
    then have "xs ! length ys = c" by simp
    with \<open>length ys < length xs\<close> have "c \<in> set xs" by (metis nth_mem)
    with assms(2) show ?thesis by simp
  qed
qed

lemma split_aux_pass:
  "\<not> sublist sep a \<Longrightarrow> c \<notin> set sep \<Longrightarrow> sep \<noteq> [] \<Longrightarrow>
   split_aux sep acc (a @ c # r) = split_aux sep (c # rev a @ acc) r"
proof (induction a arbitrary: acc)
  case Nil
  then have "\<not> prefix sep (c # r)" by (cases sep) auto
  then show ?case by simp
next
  case (Cons x a)
  have "\<not> prefix sep (x # a)" using Cons.prems(1) prefix_imp_sublist by blast
  then have "\<not> prefix sep ((x # a) @ c # r)"
    using prefix_stop [of sep "x # a" c r] Cons.prems(2) by blast
  moreover have "\<not> sublist sep a" using Cons.prems(1) by (auto simp: sublist_Cons_right)
  ultimately show ?case using Cons.IH [of "x # acc"] Cons.prems by simp
qed


lemma join_Cons: "ys \<noteq> [] \<Longrightarrow> join sep (x # ys) = x @ sep @ join sep ys"
  by (cases ys) auto

lemma splitlines_aux_nonempty: "s \<noteq> [] \<Longrightarrow> splitlines_aux acc s \<noteq> []"
  by (induction acc s rule: splitlines_aux.induct) auto

lemma splitlines_aux_lf:
  "\<forall>c \<in> set body. is_linebreak c \<longrightarrow> c = CHR 0x0A \<Longrightarrow>
   join [CHR 0x0A] (splitlines_aux acc (body @ [CHR 0x0A])) = rev acc @ body"
proof (induction body arbitrary: acc)
  case Nil
  show ?case by (simp add: is_linebreak_def)
next
  case (Cons c b)
  obtain d ds where dd: "b @ [CHR 0x0A] = d # ds" by (cases "b @ [CHR 0x0A]") auto
  have ne: "splitlines_aux [] (d # ds) \<noteq> []" by (rule splitlines_aux_nonempty) simp
  have ih: "\<And>acc. join [CHR 0x0A] (splitlines_aux acc (d # ds)) = rev acc @ b"
    using Cons.IH Cons.prems dd by simp
  have cr: "c \<noteq> CHR 0x0D" using Cons.prems by (auto simp: is_linebreak_def)
  show ?case
  proof (cases "is_linebreak c")
    case True
    then have "c = CHR 0x0A" using Cons.prems by simp
    then show ?thesis using True cr dd ih [of "[]"] ne by (simp add: join_Cons)
  next
    case False
    then show ?thesis using cr dd ih [of "c # acc"] by simp
  qed
qed


lemma marker_facts:
  "release_notes_marker \<noteq> []" "changelog_marker \<noteq> []"
  "CHR 0x0A \<notin> set release_notes_marker" "CHR 0x0A \<notin> set changelog_marker"
  "\<not> sublist release_notes_marker changelog_marker"
  by (simp_all add: release_notes_marker_def changelog_marker_def sublist_Cons_right)

lemma release_notes_and_changelog_markers:
  "release_notes_and_changelog bug_description =
     (case split bug_description release_notes_marker of Inl e \<Rightarrow> Inl e | Inr pieces \<Rightarrow>
      case getitem_list pieces 1 of Inl e \<Rightarrow> Inl e | Inr piece \<Rightarrow>
      case split piece changelog_marker of Inl e \<Rightarrow> Inl e
      | Inr [release_notes, changelog] \<Rightarrow>
          Inr (strip release_notes, rstrip (join [CHR 0x0A] (drop 1 (splitlines changelog))))
      | Inr _ \<Rightarrow> Inl ValueError)"
  unfolding release_notes_and_changelog_def release_notes_marker_def changelog_marker_def
  by (rule refl)

lemma split_release_notes:
  assumes "\<not> sublist release_notes_marker s0" "\<not> sublist release_notes_marker body"
  shows "split (release_notes_marker @ s0 @ CHR 0x0A # changelog_marker @ CHR 0x0A # body @ [CHR 0x0A])
           release_notes_marker =
         Inr [[], s0 @ CHR 0x0A # changelog_marker @ CHR 0x0A # body @ [CHR 0x0A]]"
proof -
  let ?m = release_notes_marker
  have "split_aux ?m [] (s0 @ CHR 0x0A # changelog_marker @ CHR 0x0A # body @ [CHR 0x0A]) =
        split_aux ?m (CHR 0x0A # rev s0) (changelog_marker @ CHR 0x0A # body @ [CHR 0x0A])"
    using split_aux_pass [OF assms(1) marker_facts(3) marker_facts(1), of "[]"] by simp
  also have "\<dots> = split_aux ?m (CHR 0x0A # rev changelog_marker @ CHR 0x0A # rev s0) (body @ [CHR 0x0A])"
    using split_aux_pass [OF marker_facts(5) marker_facts(3) marker_facts(1)] by simp
  also have "\<dots> = split_aux ?m (CHR 0x0A # rev body @ CHR 0x0A # rev changelog_marker @ CHR 0x0A # rev s0) []"
    using split_aux_pass [OF assms(2) marker_facts(3) marker_facts(1), of _ "[]"] by simp
  finally have "split_aux ?m [] (s0 @ CHR 0x0A # changelog_marker @ CHR 0x0A # body @ [CHR 0x0A]) =
      [s0 @ CHR 0x0A # changelog_marker @ CHR 0x0A # body @ [CHR 0x0A]]" by simp
  then show ?thesis
    using split_aux_at_sep [OF marker_facts(1), of "[]"] marker_facts(1) by (simp add: split_def)
qed

lemma split_changelog:
  assumes "\<not> sublist changelog_marker s0" "\<not> sublist changelog_marker body"
  shows "split (s0 @ CHR 0x0A # changelog_marker @ CHR 0x0A # body @ [CHR 0x0A]) changelog_marker =
         Inr [s0 @ [CHR 0x0A], CHR 0x0A # body @ [CHR 0x0A]]"
proof -
  let ?m = changelog_marker
  have e: "\<not> sublist ?m []" using marker_facts(2) by simp
  have "split_aux ?m [] (s0 @ CHR 0x0A # ?m @ CHR 0x0A # body @ [CHR 0x0A]) =
        split_aux ?m (CHR 0x0A # rev s0) (?m @ CHR 0x0A # body @ [CHR 0x0A])"
    using split_aux_pass [OF assms(1) marker_facts(4) marker_facts(2), of "[]"] by simp
  also have "\<dots> = (s0 @ [CHR 0x0A]) # split_aux ?m [] (CHR 0x0A # body @ [CHR 0x0A])"
    using split_aux_at_sep [OF marker_facts(2)] by simp
  also have "split_aux ?m [] (CHR 0x0A # body @ [CHR 0x0A]) = split_aux ?m [CHR 0x0A] (body @ [CHR 0x0A])"
    using split_aux_pass [OF e marker_facts(4) marker_facts(2), of "[]"] by simp
  also have "\<dots> = split_aux ?m (CHR 0x0A # rev body @ [CHR 0x0A]) []"
    using split_aux_pass [OF assms(2) marker_facts(4) marker_facts(2), of _ "[]"] by simp
  finally show ?thesis using marker_facts(2) by (simp add: split_def)
qed

lemma sections_read_back:
  assumes "\<not> sublist release_notes_marker s0" "\<not> sublist changelog_marker s0"
    and "\<not> sublist release_notes_marker body" "\<not> sublist changelog_marker body"
  shows "release_notes_and_changelog
           (release_notes_marker @ s0 @ CHR 0x0A # changelog_marker @ CHR 0x0A # body @ [CHR 0x0A]) =
         Inr (strip (s0 @ [CHR 0x0A]),
              rstrip (join [CHR 0x0A] (drop 1 (splitlines (CHR 0x0A # body @ [CHR 0x0A])))))"
  unfolding release_notes_and_changelog_markers
  by (simp add: split_release_notes [OF assms(1) assms(3)] split_changelog [OF assms(2) assms(4)]
      getitem_list_def)

lemma drop1_splitlines:
  "drop 1 (splitlines (CHR 0x0A # body @ [CHR 0x0A])) = splitlines_aux [] (body @ [CHR 0x0A])"
proof -
  obtain d ds where dd: "body @ [CHR 0x0A] = d # ds" by (cases "body @ [CHR 0x0A]") auto
  show ?thesis unfolding splitlines_def dd by (simp add: is_linebreak_def)
qed


lemma release_notes_section_last:
  "release_notes_section a b c d e = butlast (release_notes_section a b c d e) @ [CHR 0x0A]"
proof -
  have "release_notes_section a b c d e \<noteq> []" "last (release_notes_section a b c d e) = CHR 0x0A"
    by (simp_all add: release_notes_section_def)
  then show ?thesis by (metis append_butlast_last_id)
qed

lemma not_sublist_butlast: "\<not> sublist m xs \<Longrightarrow> \<not> sublist m (butlast xs)"
  by (metis sublist_order.order_trans prefix_imp_sublist prefixeq_butlast)

section \<open>Properties of the confirmation predicate\<close>

text \<open>
  C10. \<open>affirmative\<close> accepts a response exactly when it consists of whitespace only
  (the empty response included) or is \<open>y\<close> or \<open>Y\<close> with nothing around it, the two
  strings that lower-case to \<open>y\<close>; \<open>yes\<close>, \<open>Y\<close> followed by a space and \<open>y\<close> after
  a space are declined.
\<close>

theorem affirmative_iff:
  "(affirmative response \<longleftrightarrow>
      (\<forall>c \<in> set response. isspace c) \<or> response = ''y'' \<or> response = ''Y'')
   \<and> (lower response = ''y'' \<longleftrightarrow> response = ''y'' \<or> response = ''Y'')
   \<and> \<not> affirmative ''yes'' \<and> \<not> affirmative ''Y '' \<and> \<not> affirmative '' y''"
proof -
  have "affirmative response \<longleftrightarrow>
      (\<forall>c \<in> set response. isspace c) \<or> response = ''y'' \<or> response = ''Y''"
    unfolding affirmative_def by (auto simp: lower_y strip_empty_iff)
  moreover have "\<not> affirmative ''yes''" by code_simp
  moreover have "\<not> affirmative ''Y ''" by code_simp
  moreover have "\<not> affirmative '' y''" by code_simp
  ultimately show ?thesis using lower_y by blast
qed

theorem affirmative_iff_witness:
  "affirmative ''  '' \<and> affirmative ''Y'' \<and> \<not> affirmative ''no''"
  using affirmative_iff [of "''  ''"] affirmative_iff [of "''Y''"] affirmative_iff [of "''no''"]
  by (simp add: isspace_def)

section \<open>Properties of the version functions\<close>

text \<open>
  C7. \<open>is_point_release\<close> holds exactly for the version strings with more than one
  \<open>.\<close> character; \<open>24.1\<close> is not a point release and \<open>24.1.2\<close> is one.
\<close>

theorem is_point_release_iff:
  "(is_point_release v \<longleftrightarrow> 1 < length (filter (\<lambda>c. c = CHR ''.'') v))
   \<and> \<not> is_point_release ''24.1'' \<and> is_point_release ''24.1.2''"
proof -
  have "is_point_release v \<longleftrightarrow> 1 < length (filter (\<lambda>c. c = CHR ''.'') v)"
    by (simp add: is_point_release_def count_single)
  moreover have "\<not> is_point_release ''24.1''" by code_simp
  moreover have "is_point_release ''24.1.2''" by code_simp
  ultimately show ?thesis by blast
qed

text \<open>
  C5. For an old version made of numeric components separated by dots, and the two-digit
  year \<open>Y\<close> that the clock gives: when the first component is not less than \<open>Y\<close>, the
  default release version is the old version with its last component incremented by one;
  otherwise it is \<open>Y.1\<close>. A blank response returns that default.
\<close>

theorem likely_release_version_default:
  assumes cs: "cs \<noteq> []" and ds: "\<forall>c \<in> set cs. c \<noteq> [] \<and> list_all isdigit c"
    and cy: "current_year now_year = Inr Y"
  shows "likely_release_version now_year (join ''.'' cs) =
           Inr (if int (digits_value (hd cs)) \<ge> Y
                then join ''.'' (butlast cs @ [str_int (int (digits_value (last cs)) + 1)])
                else str_int Y @ ''.1'')
         \<and> get_release_version now_year (join ''.'' cs) [] =
             likely_release_version now_year (join ''.'' cs)"
proof -
  have nodot: "\<forall>x \<in> set cs. CHR ''.'' \<notin> set x" using ds digits_no_dot by blast
  have sp: "split (join ''.'' cs) ''.'' = Inr cs" using split_join [OF cs nodot] .
  have h: "int_of_str (hd cs) = Inr (int (digits_value (hd cs)))"
    using cs ds by (simp add: int_of_str_digits)
  have l: "int_of_str (last cs) = Inr (int (digits_value (last cs)))"
    using cs ds by (simp add: int_of_str_digits)
  have 1: "likely_release_version now_year (join ''.'' cs) =
           Inr (if int (digits_value (hd cs)) \<ge> Y
                then join ''.'' (butlast cs @ [str_int (int (digits_value (last cs)) + 1)])
                else str_int Y @ ''.1'')"
    unfolding likely_release_version_def
    by (simp add: sp getitem_list_0 [OF cs] getitem_list_last [OF cs] setitem_list_last [OF cs] h l cy)
  have "strip [] = []" by (simp add: strip_def lstrip_def rstrip_def)
  then have "get_release_version now_year (join ''.'' cs) [] =
      likely_release_version now_year (join ''.'' cs)"
    unfolding get_release_version_def by (simp add: 1)
  with 1 show ?thesis by simp
qed

theorem likely_release_version_default_witness:
  "likely_release_version 2024 ''23.4'' = Inr ''24.1'' \<and> likely_release_version 2024 ''24.2'' = Inr ''24.3''"
proof -
  have a: "[''23'', ''4''] \<noteq> []" "[''24'', ''2''] \<noteq> []" by simp_all
  have b: "\<forall>c \<in> set [''23'', ''4'']. c \<noteq> [] \<and> list_all isdigit c" by (simp add: isdigit_def)
  have c: "\<forall>c \<in> set [''24'', ''2'']. c \<noteq> [] \<and> list_all isdigit c" by (simp add: isdigit_def)
  have v1: "str_int 24 @ ''.1'' = ''24.1''" by code_simp
  have v2: "join ''.'' (butlast [''24'', ''2''] @ [str_int (int (digits_value (last [''24'', ''2''])) + 1)]) = ''24.3''" by code_simp
  have v3: "\<not> int (digits_value (hd [''23'', ''4''])) \<ge> 24" by code_simp
  have v4: "int (digits_value (hd [''24'', ''2''])) \<ge> 24" by code_simp
  have j1: "join ''.'' [''23'', ''4''] = ''23.4''" by simp
  have j2: "join ''.'' [''24'', ''2''] = ''24.2''" by simp
  show ?thesis
    using likely_release_version_default [OF a(1) b cy2024]
          likely_release_version_default [OF a(2) c cy2024]
    unfolding j1 j2 using v1 v2 v3 v4 by simp
qed

text \<open>
  C6 (as the code has it). For a current version \<open>YY.N\<close> of two numeric components: when
  \<open>N\<close> exceeds 3, the default next version is \<open>(C+1).1\<close>, where \<open>C\<close> is the two-digit
  year of the clock at the time of the run (and not the year of the version); otherwise
  it is \<open>YY.(N+1)\<close>. Run in 2024, \<open>24.4\<close> gives \<open>25.1\<close> and \<open>24.1\<close> gives
  \<open>24.2\<close>.
\<close>

theorem likely_next_version_clock:
  assumes y: "y \<noteq> []" "list_all isdigit y" and n: "n \<noteq> []" "list_all isdigit n"
  shows "likely_next_version now_year (y @ ''.'' @ n) =
           (if digits_value n > 3
            then (case current_year now_year of Inl e \<Rightarrow> Inl e
                  | Inr cy \<Rightarrow> Inr (str_int (cy + 1) @ ''.1''))
            else Inr (str_int (int (digits_value y)) @ ''.'' @ str_int (int (digits_value n) + 1)))"
proof -
  have nodot: "\<forall>x \<in> set [y, n]. CHR ''.'' \<notin> set x" using y n digits_no_dot by simp
  have "split (join ''.'' [y, n]) ''.'' = Inr [y, n]" using split_join [OF _ nodot] by simp
  then have sp: "split (y @ ''.'' @ n) ''.'' = Inr [y, n]" by simp
  have i0: "getitem_list [y, n] 0 = Inr y" by (simp add: getitem_list_def)
  show ?thesis
    unfolding likely_next_version_def
    by (simp add: sp i0 getitem_list_1 int_of_str_digits y n del: append.simps)
qed

theorem likely_next_version_clock_witness:
  "likely_next_version 2024 ''24.4'' = Inr ''25.1'' \<and> likely_next_version 2024 ''24.1'' = Inr ''24.2''"
proof -
  have d: "''24'' \<noteq> []" "list_all isdigit ''24''" "''4'' \<noteq> []" "list_all isdigit ''4''"
     "''1'' \<noteq> []" "list_all isdigit ''1''" by (simp_all add: isdigit_def)
  have v1: "digits_value ''4'' > 3" by code_simp
  have v2: "\<not> digits_value ''1'' > 3" by code_simp
  have v3: "str_int (24 + 1) @ ''.1'' = ''25.1''" by code_simp
  have v4: "str_int (int (digits_value ''24'')) @ ''.'' @ str_int (int (digits_value ''1'') + 1) = ''24.2''" by code_simp
  show ?thesis
    using likely_next_version_clock [OF d(1) d(2) d(3) d(4), of 2024]
          likely_next_version_clock [OF d(1) d(2) d(5) d(6), of 2024]
          v1 v2 v3 v4 cy2024 by simp
qed

text \<open>
  C6 as stated fails: run in 2025, the version \<open>24.4\<close> gives \<open>26.1\<close>, not \<open>25.1\<close>.
\<close>

theorem likely_next_version_counterexample:
  "likely_next_version 2025 ''24.4'' = Inr ''26.1'' \<and> ''26.1'' \<noteq> ''25.1''"
  by code_simp

section \<open>Properties of the stage cache\<close>

text \<open>
  C3. On a cache object that has an entry for its version (every object the constructor
  makes has one), \<open>set\<close> of a field followed by \<open>get\<close> of that field returns the
  value set; \<open>set\<close> writes the whole store to the file, and a cache object constructed
  again for the same version from that file returns the same value.
\<close>

theorem set_then_get:
  assumes "has_entry self"
  shows "\<exists>self' file'. setitem self f x = Inr (self', file')
           \<and> getitem self' f = Inr x
           \<and> file' = Some (cache self')
           \<and> getitem (CachedDict_init (version self) file') f = Inr x"
proof -
  obtain self' where s: "setitem self f x = Inr (self', save_cache self')" "has_entry self'"
      "version self' = version self" "getitem self' f = Inr x"
    using setitem_ok [OF assms] by blast
  have "CachedDict_init (version self) (save_cache self') = self'"
    using init_reload [OF s(2)] s(3) by simp
  then show ?thesis using s by (auto simp: save_cache_def)
qed

theorem set_then_get_witness:
  "\<exists>self' file'. setitem (CachedDict_init ''24.1'' None) ''bug_id'' (PyInt 7) = Inr (self', file')
           \<and> getitem self' ''bug_id'' = Inr (PyInt 7)
           \<and> file' = Some (cache self')
           \<and> getitem (CachedDict_init ''24.1'' file') ''bug_id'' = Inr (PyInt 7)"
  using set_then_get [OF has_entry_init, of "''24.1''" None "''bug_id''" "PyInt 7"]
  by (simp add: version_init)

text \<open>
  C4. After \<open>purge\<close>, \<open>get\<close> of any field returns \<open>None\<close>, whatever had been set
  before; the entry of the version is the empty mapping, it is written to the file at
  once, and a cache object constructed again from that file also returns \<open>None\<close>.
\<close>

theorem purge_then_get:
  "getitem (fst (purge self)) f = Inr PyNone
   \<and> cache (fst (purge self)) (version self) = Some Map.empty
   \<and> snd (purge self) = Some (cache (fst (purge self)))
   \<and> getitem (CachedDict_init (version self) (snd (purge self))) f = Inr PyNone"
  by (simp add: purge_def getitem_def subscript_def save_cache_def CachedDict_init_def Let_def)

text \<open>
  C9. The in-memory store always has an entry for the version of the cache object. The
  constructor keeps the entry it finds in the file and creates an empty one when there is
  none (also when the file does not exist), leaving the other versions as the file has
  them. \<open>set\<close> does not raise when the entry is there: it writes into it, so that the
  entry afterwards is the old entry with the field mapped to the value, the other versions
  are untouched and the whole store is written to the file; without the entry it would
  raise \<open>KeyError\<close>. \<open>purge\<close> replaces the entry by the empty mapping and keeps the
  key. \<open>get\<close> never raises: it returns the value of a field that is set and \<open>None\<close>
  for a field that is missing.
\<close>

theorem cache_entry_invariant:
  "has_entry (CachedDict_init v file)
   \<and> version (CachedDict_init v file) = v
   \<and> cache (CachedDict_init v None) v = Some Map.empty
   \<and> (\<forall>content. file = Some content \<longrightarrow>
         (\<forall>entry. content v = Some entry \<longrightarrow> cache (CachedDict_init v file) v = Some entry)
         \<and> (content v = None \<longrightarrow> cache (CachedDict_init v file) v = Some Map.empty)
         \<and> (\<forall>w. w \<noteq> v \<longrightarrow> cache (CachedDict_init v file) w = content w))
   \<and> (\<forall>entry. cache self (version self) = Some entry \<longrightarrow>
         (\<exists>self' file'. setitem self key item = Inr (self', file')
            \<and> has_entry self' \<and> version self' = version self
            \<and> cache self' (version self) = Some (entry(key \<mapsto> item))
            \<and> (\<forall>w. w \<noteq> version self \<longrightarrow> cache self' w = cache self w)
            \<and> file' = Some (cache self')))
   \<and> (\<not> has_entry self \<longrightarrow> setitem self key item = Inl KeyError)
   \<and> has_entry (fst (purge self)) \<and> version (fst (purge self)) = version self
   \<and> cache (fst (purge self)) (version self) = Some Map.empty
   \<and> (\<forall>w. w \<noteq> version self \<longrightarrow> cache (fst (purge self)) w = cache self w)
   \<and> (\<exists>val. getitem self key = Inr val)
   \<and> (\<forall>entry val. cache self (version self) = Some entry \<and> entry key = Some val
         \<longrightarrow> getitem self key = Inr val)
   \<and> ((\<forall>entry. cache self (version self) = Some entry \<longrightarrow> entry key = None)
        \<longrightarrow> getitem self key = Inr PyNone)"
proof -
  have 1: "has_entry (CachedDict_init v file) \<and> version (CachedDict_init v file) = v"
    using has_entry_init version_init by simp
  have 2: "cache (CachedDict_init v None) v = Some Map.empty"
    by (simp add: CachedDict_init_def)
  have 3: "\<forall>content. file = Some content \<longrightarrow>
         (\<forall>entry. content v = Some entry \<longrightarrow> cache (CachedDict_init v file) v = Some entry)
         \<and> (content v = None \<longrightarrow> cache (CachedDict_init v file) v = Some Map.empty)
         \<and> (\<forall>w. w \<noteq> v \<longrightarrow> cache (CachedDict_init v file) w = content w)"
    by (auto simp: CachedDict_init_def Let_def split: option.splits)
  have 4: "\<forall>entry. cache self (version self) = Some entry \<longrightarrow>
         (\<exists>self' file'. setitem self key item = Inr (self', file')
            \<and> has_entry self' \<and> version self' = version self
            \<and> cache self' (version self) = Some (entry(key \<mapsto> item))
            \<and> (\<forall>w. w \<noteq> version self \<longrightarrow> cache self' w = cache self w)
            \<and> file' = Some (cache self'))"
    by (simp add: setitem_def has_entry_def save_cache_def Let_def)
  have 5: "\<not> has_entry self \<longrightarrow> setitem self key item = Inl KeyError"
    by (simp add: setitem_def has_entry_def)
  have 6: "has_entry (fst (purge self)) \<and> version (fst (purge self)) = version self
      \<and> cache (fst (purge self)) (version self) = Some Map.empty
      \<and> (\<forall>w. w \<noteq> version self \<longrightarrow> cache (fst (purge self)) w = cache self w)"
    by (simp add: purge_def has_entry_def Let_def)
  have 7: "\<exists>val. getitem self key = Inr val"
    by (auto simp: getitem_def subscript_def split: option.splits)
  have 8: "\<forall>entry val. cache self (version self) = Some entry \<and> entry key = Some val
         \<longrightarrow> getitem self key = Inr val"
    by (simp add: getitem_def subscript_def)
  have 9: "(\<forall>entry. cache self (version self) = Some entry \<longrightarrow> entry key = None)
        \<longrightarrow> getitem self key = Inr PyNone"
    by (auto simp: getitem_def subscript_def split: option.splits)
  show ?thesis using 1 2 3 4 5 6 7 8 9 by blast
qed

theorem cache_entry_invariant_witness:
  "cache (CachedDict_init ''24.1'' (Some [''24.1'' \<mapsto> [''bug_id'' \<mapsto> PyInt 7]])) ''24.1''
     = Some [''bug_id'' \<mapsto> PyInt 7]
   \<and> cache (CachedDict_init ''24.1'' (Some [''23.4'' \<mapsto> [''bug_id'' \<mapsto> PyInt 3]])) ''24.1''
     = Some Map.empty
   \<and> (\<exists>self' file'.
         setitem (CachedDict_init ''24.1'' (Some [''24.1'' \<mapsto> [''bug_id'' \<mapsto> PyInt 7]]))
           ''old_version'' (PyStr ''23.4'') = Inr (self', file')
         \<and> has_entry self'
         \<and> cache self' ''24.1'' = Some [''bug_id'' \<mapsto> PyInt 7, ''old_version'' \<mapsto> PyStr ''23.4''])
   \<and> getitem (CachedDict_init ''24.1'' (Some [''24.1'' \<mapsto> [''bug_id'' \<mapsto> PyInt 7]])) ''bug_id''
     = Inr (PyInt 7)
   \<and> getitem (CachedDict_init ''24.1'' None) ''bug_id'' = Inr PyNone"
proof -
  let ?f = "Some [''24.1'' \<mapsto> [''bug_id'' \<mapsto> PyInt 7]]"
  let ?g = "Some [''23.4'' \<mapsto> [''bug_id'' \<mapsto> PyInt 3]]"
  have a: "[''24.1'' \<mapsto> [''bug_id'' \<mapsto> PyInt 7]] ''24.1'' = Some [''bug_id'' \<mapsto> PyInt 7]"
    by simp
  have b: "[''23.4'' \<mapsto> [''bug_id'' \<mapsto> PyInt 3]] ''24.1'' = None" by simp
  have 1: "cache (CachedDict_init ''24.1'' ?f) ''24.1'' = Some [''bug_id'' \<mapsto> PyInt 7]"
    using cache_entry_invariant [of "''24.1''" ?f] a by blast
  have 2: "cache (CachedDict_init ''24.1'' ?g) ''24.1'' = Some Map.empty"
    using cache_entry_invariant [of "''24.1''" ?g] b by blast
  have v: "version (CachedDict_init ''24.1'' ?f) = ''24.1''" by (rule version_init)
  have 3: "\<exists>self' file'.
         setitem (CachedDict_init ''24.1'' ?f) ''old_version'' (PyStr ''23.4'') = Inr (self', file')
         \<and> has_entry self'
         \<and> cache self' ''24.1'' = Some [''bug_id'' \<mapsto> PyInt 7, ''old_version'' \<mapsto> PyStr ''23.4'']"
    using cache_entry_invariant [of "''24.1''" ?f "CachedDict_init ''24.1'' ?f" "''old_version''"
        "PyStr ''23.4''"] 1 v by auto
  have k: "[''bug_id'' \<mapsto> PyInt 7] ''bug_id'' = Some (PyInt 7)" by simp
  have 4: "getitem (CachedDict_init ''24.1'' ?f) ''bug_id'' = Inr (PyInt 7)"
    using cache_entry_invariant [of "''24.1''" ?f "CachedDict_init ''24.1'' ?f" "''bug_id''"] 1 v k
    by auto
  have m: "\<forall>entry. cache (CachedDict_init ''24.1'' None) (version (CachedDict_init ''24.1'' None))
       = Some entry \<longrightarrow> entry ''bug_id'' = None" by (simp add: CachedDict_init_def)
  have 5: "getitem (CachedDict_init ''24.1'' None) ''bug_id'' = Inr PyNone"
    using cache_entry_invariant [of "''24.1''" None "CachedDict_init ''24.1'' None" "''bug_id''"] m
    by blast
  show ?thesis using 1 2 3 4 5 by blast
qed

section \<open>Properties of the description of the release bug\<close>

text \<open>
  C2 (as the code has it). When neither section header occurs in the text that the template
  puts between the headers, nor in the changelog body, reading the sections back from the
  rendered template gives (a) as release notes everything between the two headers with
  the surrounding whitespace stripped, and (b) as changelog everything after the second
  header with its first line removed, its line breaks rewritten to line feeds and its
  trailing whitespace stripped. When the line feed is the only line break of the body,
  the changelog read back is the body with its trailing whitespace stripped, and the body
  itself when it has no trailing whitespace.
\<close>

theorem bug_description_round_trip:
  assumes s1: "\<not> sublist release_notes_marker (release_notes_section nr sp nc nd nb)"
    and s2: "\<not> sublist changelog_marker (release_notes_section nr sp nc nd nb)"
    and b1: "\<not> sublist release_notes_marker cl"
    and b2: "\<not> sublist changelog_marker cl"
  shows "release_notes_and_changelog (BUG_TEMPLATE_format nr sp nc nd nb cl) =
           Inr (strip (release_notes_section nr sp nc nd nb),
                rstrip (join ''\<newline>'' (drop 1 (splitlines (''\<newline>'' @ cl @ ''\<newline>'')))))
         \<and> ((\<forall>c \<in> set cl. is_linebreak c \<longrightarrow> c = CHR 0x0A) \<longrightarrow>
              release_notes_and_changelog (BUG_TEMPLATE_format nr sp nc nd nb cl) =
                Inr (strip (release_notes_section nr sp nc nd nb), rstrip cl))
         \<and> ((\<forall>c \<in> set cl. is_linebreak c \<longrightarrow> c = CHR 0x0A) \<and> rstrip cl = cl \<longrightarrow>
              release_notes_and_changelog (BUG_TEMPLATE_format nr sp nc nd nb cl) =
                Inr (strip (release_notes_section nr sp nc nd nb), cl))"
proof -
  let ?s = "release_notes_section nr sp nc nd nb"
  let ?h = "butlast ?s"
  have s: "?s = ?h @ [CHR 0x0A]" by (rule release_notes_section_last)
  have t: "BUG_TEMPLATE_format nr sp nc nd nb cl =
      release_notes_marker @ ?h @ CHR 0x0A # changelog_marker @ CHR 0x0A # cl @ [CHR 0x0A]"
    using template_sections [of nr sp nc nd nb cl] s by (metis append_Cons append_Nil append_assoc)
  have r: "release_notes_and_changelog (BUG_TEMPLATE_format nr sp nc nd nb cl) =
      Inr (strip (?h @ [CHR 0x0A]),
           rstrip (join [CHR 0x0A] (drop 1 (splitlines (CHR 0x0A # cl @ [CHR 0x0A])))))"
    unfolding t
    by (rule sections_read_back [OF not_sublist_butlast [OF s1] not_sublist_butlast [OF s2] b1 b2])
  have 1: "release_notes_and_changelog (BUG_TEMPLATE_format nr sp nc nd nb cl) =
           Inr (strip ?s, rstrip (join ''\<newline>'' (drop 1 (splitlines (''\<newline>'' @ cl @ ''\<newline>'')))))"
    using r s by simp
  have 2: "(\<forall>c \<in> set cl. is_linebreak c \<longrightarrow> c = CHR 0x0A) \<longrightarrow>
      release_notes_and_changelog (BUG_TEMPLATE_format nr sp nc nd nb cl) = Inr (strip ?s, rstrip cl)"
  proof
    assume a: "\<forall>c \<in> set cl. is_linebreak c \<longrightarrow> c = CHR 0x0A"
    then have j: "join [CHR 0x0A] (splitlines_aux [] (cl @ [CHR 0x0A])) = cl"
      using splitlines_aux_lf [of cl "[]"] by simp
    have "join [CHR 0x0A] (drop 1 (splitlines (CHR 0x0A # cl @ [CHR 0x0A]))) = cl"
      unfolding drop1_splitlines by (rule j)
    then show "release_notes_and_changelog (BUG_TEMPLATE_format nr sp nc nd nb cl) =
        Inr (strip ?s, rstrip cl)"
      using r s by simp
  qed
  show ?thesis using 1 2 by auto
qed

theorem bug_description_round_trip_witness:
  "release_notes_and_changelog
     (BUG_TEMPLATE_format ''24.1'' ''3 months'' ''10'' ''5'' ''2'' ''line 1\<newline>line 2'') =
   Inr (strip (release_notes_section ''24.1'' ''3 months'' ''10'' ''5'' ''2''), ''line 1\<newline>line 2'')"
proof -
  have s1: "\<not> sublist release_notes_marker (release_notes_section ''24.1'' ''3 months'' ''10'' ''5'' ''2'')"
    by code_simp
  have s2: "\<not> sublist changelog_marker (release_notes_section ''24.1'' ''3 months'' ''10'' ''5'' ''2'')"
    by code_simp
  have b1: "\<not> sublist release_notes_marker ''line 1\<newline>line 2''" by code_simp
  have b2: "\<not> sublist changelog_marker ''line 1\<newline>line 2''" by code_simp
  have l: "\<forall>c \<in> set ''line 1\<newline>line 2''. is_linebreak c \<longrightarrow> c = CHR 0x0A" by code_simp
  have r: "rstrip ''line 1\<newline>line 2'' = ''line 1\<newline>line 2''" by code_simp
  show ?thesis using bug_description_round_trip [OF s1 s2 b1 b2] l r by blast
qed

text \<open>
  C2 as stated fails. A body with a form feed in the middle holds neither header and no
  trailing whitespace, and comes back with a line feed in place of the form feed. A
  release version that holds the second header makes the second split give three pieces,
  and the unpacking raises \<open>ValueError\<close>. And the changelog read back for the body
  \<open>x\<close> is \<open>x\<close>, while the text after the second header without its first line is
  \<open>x\<close> followed by a line feed.
\<close>

theorem bug_description_round_trip_counterexample:
  "\<not> sublist release_notes_marker [CHR ''a'', CHR 0x0C, CHR ''b'']
   \<and> \<not> sublist changelog_marker [CHR ''a'', CHR 0x0C, CHR ''b'']
   \<and> rstrip [CHR ''a'', CHR 0x0C, CHR ''b''] = [CHR ''a'', CHR 0x0C, CHR ''b'']
   \<and> release_notes_and_changelog
        (BUG_TEMPLATE_format ''24.1'' ''3 months'' ''10'' ''5'' ''2'' [CHR ''a'', CHR 0x0C, CHR ''b'']) =
       Inr (strip (release_notes_section ''24.1'' ''3 months'' ''10'' ''5'' ''2''), ''a\<newline>b'')
   \<and> ''a\<newline>b'' \<noteq> [CHR ''a'', CHR 0x0C, CHR ''b'']
   \<and> release_notes_and_changelog
        (BUG_TEMPLATE_format ''== Changelog =='' ''3 months'' ''10'' ''5'' ''2'' ''x'') = Inl ValueError
   \<and> release_notes_and_changelog
        (BUG_TEMPLATE_format ''24.1'' ''3 months'' ''10'' ''5'' ''2'' ''x'') =
       Inr (strip (release_notes_section ''24.1'' ''3 months'' ''10'' ''5'' ''2''), ''x'')
   \<and> ''x'' \<noteq> ''x\<newline>''"
  by code_simp

end
